theory Spec2Isabelle
  imports Complex_Main "HOL-Library.AList"
begin

section \<open>The incident grouping of gamas-exporter.ts\<close>

text \<open>
  Instants. The source keeps every instant as an ISO date string and compares two of
  them through \<^verbatim>\<open>new Date(s).getTime()\<close>, the number of milliseconds since the
  epoch. An instant is modelled by that number of milliseconds, an \<open>int\<close>; strings
  that are no valid date are outside the model.
\<close>

record incident =
  startsAt :: int
  host :: string
  link :: string
  region :: string

record incidentGroup =
  region :: string
  link :: string
  hosts :: "string list"
  count :: nat
  startsAtMin :: int
  startsAtMax :: int

text \<open>
  \<^verbatim>\<open>isWithinTolerance(date1, date2, toleranceSeconds)\<close>:
  \<^verbatim>\<open>Math.abs(t1 - t2) <= toleranceSeconds * 1000\<close>.
\<close>

definition isWithinTolerance :: "int \<Rightarrow> int \<Rightarrow> int \<Rightarrow> bool" where
  "isWithinTolerance date1 date2 toleranceSeconds =
     (let timeDiff = \<bar>date1 - date2\<bar> in timeDiff \<le> toleranceSeconds * 1000)"

text \<open>
  The predicate handed to \<^verbatim>\<open>incidentGroups.find\<close>. The period
  \<^verbatim>\<open>gamasMassIncidentPeriodSeconds\<close> is a constant of the configuration module and is
  taken as the parameter \<open>period\<close>.
\<close>

definition groupMatches :: "int \<Rightarrow> incident \<Rightarrow> incidentGroup \<Rightarrow> bool" where
  "groupMatches period inc g =
     (region g = incident.region inc \<and>
      link g = incident.link inc \<and>
      (isWithinTolerance (startsAtMin g) (startsAt inc) period \<or>
       isWithinTolerance (startsAtMax g) (startsAt inc) period))"

text \<open>The branch "Add to existing group": the found group is changed in place.\<close>

definition addToGroup :: "incident \<Rightarrow> incidentGroup \<Rightarrow> incidentGroup" where
  "addToGroup inc g =
     g\<lparr>hosts := hosts g @ [host inc],
       count := count g + 1,
       startsAtMin := min (startsAtMin g) (startsAt inc),
       startsAtMax := max (startsAtMax g) (startsAt inc)\<rparr>"

text \<open>The branch "Create new group".\<close>

definition newGroup :: "incident \<Rightarrow> incidentGroup" where
  "newGroup inc =
     \<lparr>region = incident.region inc, link = incident.link inc, hosts = [host inc], count = 1,
      startsAtMin = startsAt inc, startsAtMax = startsAt inc\<rparr>"

text \<open>
  \<^verbatim>\<open>find\<close> returns the first element of the array that satisfies the predicate, and
  the source then mutates that object: in the list of groups the first match is replaced.
\<close>

fun updateFirst :: "('a \<Rightarrow> bool) \<Rightarrow> ('a \<Rightarrow> 'a) \<Rightarrow> 'a list \<Rightarrow> 'a list" where
  "updateFirst p f [] = []"
| "updateFirst p f (g # gs) = (if p g then f g # gs else g # updateFirst p f gs)"

text \<open>
  One round of the loop of \<^verbatim>\<open>groupIncidents\<close>. \<open>maxAge\<close> is
  \<^verbatim>\<open>gamasMaxIncidentAgeSeconds\<close> and \<open>now\<close> the instant read once before the loop.
\<close>

definition processIncident ::
  "int \<Rightarrow> int \<Rightarrow> int \<Rightarrow> incidentGroup list \<Rightarrow> incident \<Rightarrow> incidentGroup list" where
  "processIncident maxAge period now incidentGroups inc =
     (if \<not> isWithinTolerance (startsAt inc) now maxAge then incidentGroups
      else case find (groupMatches period inc) incidentGroups of
             Some g \<Rightarrow>
               if host inc \<in> set (hosts g) then incidentGroups
               else updateFirst (groupMatches period inc) (addToGroup inc) incidentGroups
           | None \<Rightarrow> incidentGroups @ [newGroup inc])"

fun groupLoop ::
  "int \<Rightarrow> int \<Rightarrow> int \<Rightarrow> incidentGroup list \<Rightarrow> incident list \<Rightarrow> incidentGroup list" where
  "groupLoop maxAge period now incidentGroups [] = incidentGroups"
| "groupLoop maxAge period now incidentGroups (inc # incs) =
     groupLoop maxAge period now (processIncident maxAge period now incidentGroups inc) incs"

definition groupIncidents :: "int \<Rightarrow> int \<Rightarrow> int \<Rightarrow> incident list \<Rightarrow> incidentGroup list" where
  "groupIncidents maxAge period now incidents = groupLoop maxAge period now [] incidents"

text \<open>The invariant of a group: the start of its span is not after its end.\<close>

definition spanOrdered :: "incidentGroup \<Rightarrow> bool" where
  "spanOrdered g = (startsAtMin g \<le> startsAtMax g)"


section \<open>The metric parser of nusacontact-exporter.ts\<close>

subsection \<open>Strings\<close>

text \<open>
  A JavaScript string is a sequence of code units. The model uses \<open>string\<close>, whose
  characters are the code units below 256; every character the source tests for is among
  them. \<^verbatim>\<open>trim\<close> removes white space and line terminators from both ends; below 256
  these are tab, line feed, vertical tab, form feed, carriage return, space and the
  no-break space.
\<close>

definition isWhiteSpace :: "char \<Rightarrow> bool" where
  "isWhiteSpace c =
     (c \<in> set [CHR 0x09, CHR 0x0A, CHR 0x0B, CHR 0x0C, CHR 0x0D, CHR 0x20, CHR 0xA0])"

definition trimStart :: "string \<Rightarrow> string" where
  "trimStart s = dropWhile isWhiteSpace s"

definition trimEnd :: "string \<Rightarrow> string" where
  "trimEnd s = rev (dropWhile isWhiteSpace (rev s))"

definition trim :: "string \<Rightarrow> string" where
  "trim s = trimEnd (trimStart s)"

text \<open>
  \<^verbatim>\<open>s.split('\n')\<close>: the pieces between the line feeds, one piece more than there are
  line feeds (the empty string gives one empty piece). \<open>cur\<close> is the piece being read.
\<close>

fun splitFrom :: "string \<Rightarrow> string \<Rightarrow> string list" where
  "splitFrom cur [] = [cur]"
| "splitFrom cur (c # cs) =
     (if c = CHR 0x0A then cur # splitFrom [] cs else splitFrom (cur @ [c]) cs)"

definition splitLines :: "string \<Rightarrow> string list" where
  "splitLines s = splitFrom [] s"

text \<open>\<^verbatim>\<open>lines.join('\n')\<close>.\<close>

fun joinLines :: "string list \<Rightarrow> string" where
  "joinLines [] = []"
| "joinLines [l] = l"
| "joinLines (l # ls) = l @ [CHR 0x0A] @ joinLines ls"

text \<open>\<^verbatim>\<open>s.indexOf(c)\<close> for a one-character pattern: the first position, or -1.\<close>

fun indexOf :: "string \<Rightarrow> char \<Rightarrow> int" where
  "indexOf [] c = - 1"
| "indexOf (x # xs) c =
     (if x = c then 0 else (let i = indexOf xs c in if i < 0 then - 1 else i + 1))"

text \<open>
  \<^verbatim>\<open>s.substring(start, end)\<close>: both arguments are clamped to \<open>0 .. length s\<close>, and
  swapped when the first is the larger. With one argument the end is the length.
\<close>

definition substring :: "string \<Rightarrow> int \<Rightarrow> int \<Rightarrow> string" where
  "substring s start end =
     (let len = int (length s);
          finalStart = min (max start 0) len;
          finalEnd = min (max end 0) len;
          from = min finalStart finalEnd;
          to = max finalStart finalEnd
      in take (nat (to - from)) (drop (nat from) s))"

definition substringFrom :: "string \<Rightarrow> int \<Rightarrow> string" where
  "substringFrom s start = substring s start (int (length s))"

definition startsWith :: "string \<Rightarrow> char \<Rightarrow> bool" where
  "startsWith s c = (case s of [] \<Rightarrow> False | x # _ \<Rightarrow> x = c)"

text \<open>\<^verbatim>\<open>s.includes(t)\<close>: \<open>t\<close> occurs in \<open>s\<close> as a contiguous run.\<close>

fun includesStr :: "string \<Rightarrow> string \<Rightarrow> bool" where
  "includesStr [] t = (t = [])"
| "includesStr (c # cs) t = (take (length t) (c # cs) = t \<or> includesStr cs t)"

subsection \<open>Numbers and parseFloat\<close>

text \<open>
  The value of a sample is a JavaScript number. A finite number is represented by the
  rational its decimal literal denotes: the rounding to a 64-bit float, the overflow of a
  large exponent to an infinity and the sign of zero are not represented. \<open>NaN\<close> and the
  two infinities are values of their own.
\<close>

datatype number = NaN | PosInfinity | NegInfinity | Num rat

definition isDigit :: "char \<Rightarrow> bool" where
  "isDigit c = (c \<in> set ''0123456789'')"

definition digitValue :: "char \<Rightarrow> nat" where
  "digitValue c = of_char c - 48"

definition digitsValue :: "string \<Rightarrow> nat" where
  "digitsValue ds = foldl (\<lambda>n c. 10 * n + digitValue c) 0 ds"

definition pow10 :: "int \<Rightarrow> rat" where
  "pow10 e = (if 0 \<le> e then 10 ^ nat e else 1 / 10 ^ nat (- e))"

text \<open>
  The exponent part a text starts with (\<^verbatim>\<open>e\<close> or \<^verbatim>\<open>E\<close>, an optional sign, at
  least one digit), as its value; 0 when the text starts with none.
\<close>

definition exponentPart :: "string \<Rightarrow> int" where
  "exponentPart s =
     (case s of
        [] \<Rightarrow> 0
      | e # r \<Rightarrow>
          if e = CHR ''e'' \<or> e = CHR ''E'' then
            (case r of
               [] \<Rightarrow> 0
             | sg # r' \<Rightarrow>
                 if sg = CHR ''-'' then - int (digitsValue (takeWhile isDigit r'))
                 else if sg = CHR ''+'' then int (digitsValue (takeWhile isDigit r'))
                 else int (digitsValue (takeWhile isDigit r)))
          else 0)"

text \<open>
  The longest prefix that is an unsigned finite decimal literal: digits, an optional
  point with optional digits, an optional exponent part; or a point with at least one
  digit and an optional exponent part. \<open>None\<close> when no prefix is one.
\<close>

definition unsignedLiteral :: "string \<Rightarrow> rat option" where
  "unsignedLiteral u =
     (let ip = takeWhile isDigit u;
          r1 = dropWhile isDigit u;
          fp = (case r1 of [] \<Rightarrow> [] | c # r \<Rightarrow> if c = CHR ''.'' then takeWhile isDigit r else []);
          r2 = (case r1 of [] \<Rightarrow> [] | c # r \<Rightarrow> if c = CHR ''.'' then dropWhile isDigit r else r1)
      in if ip = [] \<and> fp = [] then None
         else Some (of_nat (digitsValue (ip @ fp)) * pow10 (exponentPart r2 - int (length fp))))"

text \<open>
  \<^verbatim>\<open>parseFloat(string)\<close> of the language: leading white space is dropped, the longest
  prefix that is a signed decimal literal (or a signed \<^verbatim>\<open>Infinity\<close>) is read and the
  rest ignored; with no such prefix the result is \<open>NaN\<close>.
\<close>

definition parseFloat :: "string \<Rightarrow> number" where
  "parseFloat string =
     (let trimmed = trimStart string;
          negative = startsWith trimmed (CHR ''-'');
          u = (if startsWith trimmed (CHR ''-'') \<or> startsWith trimmed (CHR ''+'')
               then tl trimmed else trimmed)
      in if take 8 u = ''Infinity'' then (if negative then NegInfinity else PosInfinity)
         else case unsignedLiteral u of
                None \<Rightarrow> NaN
              | Some q \<Rightarrow> Num (if negative then - q else q))"

text \<open>
  The text of a count in a template literal. A count is a natural number, and below
  \<open>10 ^ 21\<close> the text of such a number is its decimal digits.
\<close>

definition digitChar :: "nat \<Rightarrow> char" where
  "digitChar d = char_of (48 + d)"

fun natToString :: "nat \<Rightarrow> string" where
  "natToString n = (if n < 10 then [digitChar n] else natToString (n div 10) @ [digitChar (n mod 10)])"


subsection \<open>Objects used as dictionaries\<close>

text \<open>
  \<^verbatim>\<open>Labels\<close> and \<^verbatim>\<open>Result\<close> are plain objects created by \<^verbatim>\<open>{}\<close> and indexed by
  arbitrary strings. The own properties of such an object are modelled by an association
  list with distinct keys, in the order in which the keys were first assigned. A plain
  object also inherits the members of \<^verbatim>\<open>Object.prototype\<close>, and the source indexes
  with names it reads from its input, so the model says what happens at those names.
\<close>

type_synonym Labels = "(string \<times> string) list"

definition objectPrototypeMembers :: "string list" where
  "objectPrototypeMembers =
     [''constructor'', ''__defineGetter__'', ''__defineSetter__'', ''hasOwnProperty'',
      ''__lookupGetter__'', ''__lookupSetter__'', ''isPrototypeOf'',
      ''propertyIsEnumerable'', ''toString'', ''valueOf'', ''__proto__'',
      ''toLocaleString'']"

text \<open>
  \<^verbatim>\<open>attrs[attrName] = attrValue\<close> with a string value. The inherited member
  \<^verbatim>\<open>__proto__\<close> is an accessor whose setter ignores a value that is neither an object
  nor null, so this one assignment stores nothing; every other name becomes (or
  overwrites) an own property.
\<close>

definition assignLabel :: "string \<Rightarrow> string \<Rightarrow> Labels \<Rightarrow> Labels" where
  "assignLabel attrName attrValue attrs =
     (if attrName = ''__proto__'' then attrs else AList.update attrName attrValue attrs)"

subsection \<open>parseAttributes\<close>

text \<open>
  The errors the parser raises: the three \<^verbatim>\<open>throw new Error(...)\<close> of
  \<^verbatim>\<open>parseAttributes\<close>, named after their messages, and the \<^verbatim>\<open>TypeError\<close> of a
  call of \<^verbatim>\<open>push\<close> on a value that has no such method.
\<close>

datatype error =
    UnexpectedEqualsWithoutAttributeName
  | SpaceInAttributeName
  | InputEndedUnexpectedly
  | TypeError

datatype pstate = INITIAL | READING_ATTR | IN_QUOTE | READING_VALUE | AFTER_SEP

text \<open>The variables of \<^verbatim>\<open>parseAttributes\<close> that the loop changes.\<close>

record parser =
  attrs :: Labels
  state :: pstate
  quote :: char
  attrBuf :: string
  valBuf :: string

definition initialParser :: parser where
  "initialParser = \<lparr>attrs = [], state = INITIAL, quote = CHR 0x22, attrBuf = [], valBuf = []\<rparr>"

definition commitAttribute :: "parser \<Rightarrow> parser" where
  "commitAttribute p =
     p\<lparr>attrs := assignLabel (attrBuf p) (valBuf p) (attrs p),
       attrBuf := [],
       valBuf := [],
       state := INITIAL\<rparr>"

text \<open>The body of the loop, the \<^verbatim>\<open>switch\<close> on the state, for one character.\<close>

definition step :: "parser \<Rightarrow> char \<Rightarrow> error + parser" where
  "step p char =
     (case state p of
        INITIAL \<Rightarrow>
          if char = CHR '' '' \<or> char = CHR '','' then Inr p
          else if char = CHR ''='' then Inl UnexpectedEqualsWithoutAttributeName
          else Inr (p\<lparr>state := READING_ATTR, attrBuf := attrBuf p @ [char]\<rparr>)
      | READING_ATTR \<Rightarrow>
          if char = CHR ''='' then Inr (p\<lparr>state := AFTER_SEP\<rparr>)
          else if char = CHR '' '' then Inl SpaceInAttributeName
          else Inr (p\<lparr>attrBuf := attrBuf p @ [char]\<rparr>)
      | AFTER_SEP \<Rightarrow>
          if char = CHR 0x22 \<or> char = CHR 0x27 then Inr (p\<lparr>state := IN_QUOTE, quote := char\<rparr>)
          else if char \<noteq> CHR '' '' then Inr (p\<lparr>state := READING_VALUE, valBuf := valBuf p @ [char]\<rparr>)
          else Inr p
      | READING_VALUE \<Rightarrow>
          if char = CHR '' '' \<or> char = CHR '','' then Inr (commitAttribute p)
          else Inr (p\<lparr>valBuf := valBuf p @ [char]\<rparr>)
      | IN_QUOTE \<Rightarrow>
          if char = quote p then Inr (commitAttribute p)
          else Inr (p\<lparr>valBuf := valBuf p @ [char]\<rparr>))"

text \<open>The loop \<^verbatim>\<open>for (const char of input)\<close>; an error ends it.\<close>

fun scan :: "parser \<Rightarrow> string \<Rightarrow> error + parser" where
  "scan p [] = Inr p"
| "scan p (char # rest) = (case step p char of Inl e \<Rightarrow> Inl e | Inr p' \<Rightarrow> scan p' rest)"

text \<open>The statements after the loop.\<close>

definition finish :: "parser \<Rightarrow> error + Labels" where
  "finish p =
     (if state p = READING_VALUE then Inr (attrs (commitAttribute p))
      else if state p \<noteq> INITIAL \<and> state p \<noteq> IN_QUOTE then Inl InputEndedUnexpectedly
      else Inr (attrs p))"

definition parseAttributes :: "string \<Rightarrow> error + Labels" where
  "parseAttributes input =
     (case scan initialParser input of Inl e \<Rightarrow> Inl e | Inr p \<Rightarrow> finish p)"

subsection \<open>parseMetricLines\<close>

record metric =
  labels :: Labels
  "value" :: number

type_synonym Result = "(string \<times> metric list) list"

text \<open>
  \<^verbatim>\<open>if (!result[metricName]) result[metricName] = []\<close> and then
  \<^verbatim>\<open>result[metricName].push(metric)\<close>. When the name is an own property its array
  grows. When it is not, and the name is a member of \<^verbatim>\<open>Object.prototype\<close>, the read
  finds the inherited member, which is truthy and has no \<^verbatim>\<open>push\<close>: the call raises a
  \<^verbatim>\<open>TypeError\<close>. Otherwise the name gets a new array holding the metric.
\<close>

definition pushMetric :: "string \<Rightarrow> metric \<Rightarrow> Result \<Rightarrow> error + Result" where
  "pushMetric metricName m result =
     (case map_of result metricName of
        Some ms \<Rightarrow> Inr (AList.update metricName (ms @ [m]) result)
      | None \<Rightarrow>
          if metricName \<in> set objectPrototypeMembers then Inl TypeError
          else Inr (result @ [(metricName, [m])]))"

text \<open>The body of the loop over the lines.\<close>

definition parseLine :: "Result \<Rightarrow> string \<Rightarrow> error + Result" where
  "parseLine result line =
     (if startsWith line (CHR ''#'') then Inr result
      else
        let metricNameEnd = indexOf line (CHR ''{'');
            labelsStart = metricNameEnd + 1;
            labelsEnd = indexOf line (CHR ''}'');
            valueStart = labelsEnd + 1;
            metricName = trim (substring line 0 metricNameEnd);
            labelString = trim (substring line labelsStart labelsEnd);
            v = parseFloat (trim (substringFrom line valueStart))
        in case parseAttributes labelString of
             Inl e \<Rightarrow> Inl e
           | Inr ls \<Rightarrow> pushMetric metricName \<lparr>labels = ls, value = v\<rparr> result)"

fun parseLines :: "Result \<Rightarrow> string list \<Rightarrow> error + Result" where
  "parseLines result [] = Inr result"
| "parseLines result (line # rest) =
     (case parseLine result line of Inl e \<Rightarrow> Inl e | Inr result' \<Rightarrow> parseLines result' rest)"

definition parseMetricLines :: "string \<Rightarrow> error + Result" where
  "parseMetricLines input = parseLines [] (splitLines (trim input))"

subsection \<open>The counter and the rendering of generateNusacontactQueueMetrics\<close>

text \<open>
  \<^verbatim>\<open>queueCount\<close>, the counts per tag. The tags come from the constant
  \<^verbatim>\<open>nusacontactQueueGroups\<close> of the configuration module and are a parameter; tags
  that name a member of \<^verbatim>\<open>Object.prototype\<close> are outside the model of the counter.
  \<^verbatim>\<open>(queueCount[tag] || 0) + 1\<close> reads 0 for a tag not counted yet.
\<close>

type_synonym Counter = "(string \<times> nat) list"

definition increment :: "string \<Rightarrow> Counter \<Rightarrow> Counter" where
  "increment tag queueCount =
     AList.update tag ((case map_of queueCount tag of None \<Rightarrow> 0 | Some n \<Rightarrow> n) + 1) queueCount"

text \<open>
  The loop \<^verbatim>\<open>for (const tag of tags)\<close> for one metric.
  \<^verbatim>\<open>m.labels.tags?.includes(tag)\<close> is \<^verbatim>\<open>undefined\<close> when the metric has no label
  \<^verbatim>\<open>tags\<close>, and its negation then holds: the loop continues.
\<close>

fun countTags :: "string list \<Rightarrow> metric \<Rightarrow> Counter \<Rightarrow> Counter" where
  "countTags [] m queueCount = queueCount"
| "countTags (tag # tags) m queueCount =
     (case map_of (labels m) ''tags'' of
        None \<Rightarrow> countTags tags m queueCount
      | Some t \<Rightarrow>
          if \<not> includesStr t tag then countTags tags m queueCount
          else countTags tags m (increment tag queueCount))"

text \<open>\<^verbatim>\<open>metricsData.filter(...).forEach(...)\<close>, from the empty counter.\<close>

definition isEnqueued :: "metric \<Rightarrow> bool" where
  "isEnqueued m = (map_of (labels m) ''type'' = Some ''enqueued'')"

definition countQueue :: "string list \<Rightarrow> metric list \<Rightarrow> Counter" where
  "countQueue tags metricsData =
     foldl (\<lambda>queueCount m. countTags tags m queueCount) [] (filter isEnqueued metricsData)"

text \<open>
  The lines of the output, one for each entry of the counter, and the text written to the
  file. The metric name is the constant \<^verbatim>\<open>nusacontactQueueMetricName\<close> of the
  configuration module, a parameter here.
\<close>

definition renderLine :: "string \<Rightarrow> string \<times> nat \<Rightarrow> string" where
  "renderLine metricName entry =
     metricName @ ''{tag='' @ [CHR 0x22] @ fst entry @ [CHR 0x22] @ ''} '' @ natToString (snd entry)"

definition renderCounter :: "string \<Rightarrow> Counter \<Rightarrow> string" where
  "renderCounter metricName queueCount = joinLines (map (renderLine metricName) queueCount)"

text \<open>
  Reading a counter back from a parse, as the round trip of the specification does: the
  samples found under the metric name, each giving its label \<^verbatim>\<open>tag\<close> and its value.
  This definition follows the specification; the source has no such function.
\<close>

definition reconstructCounter :: "string \<Rightarrow> Result \<Rightarrow> (string option \<times> number) list" where
  "reconstructCounter metricName result =
     (case map_of result metricName of
        None \<Rightarrow> []
      | Some ms \<Rightarrow> map (\<lambda>m. (map_of (labels m) ''tag'', value m)) ms)"


section \<open>Properties of the incident grouping\<close>

lemma updateFirst_split:
  "\<forall>h\<in>set pre. \<not> p h \<Longrightarrow> p g \<Longrightarrow> updateFirst p f (pre @ g # post) = pre @ f g # post"
  by (induction pre) auto

lemma find_split:
  "\<forall>h\<in>set pre. \<not> p h \<Longrightarrow> p g \<Longrightarrow> find p (pre @ g # post) = Some g"
  by (induction pre) auto

lemma find_no_match: "\<forall>h\<in>set gs. \<not> p h \<Longrightarrow> find p gs = None"
  by (induction gs) auto

lemma set_updateFirst: "set (updateFirst p f gs) \<subseteq> set gs \<union> f ` set gs"
  by (induction gs) auto

lemma spanOrdered_addToGroup: "spanOrdered g \<Longrightarrow> spanOrdered (addToGroup inc g)"
  by (simp add: spanOrdered_def addToGroup_def)

lemma spanOrdered_newGroup: "spanOrdered (newGroup inc)"
  by (simp add: spanOrdered_def newGroup_def)

lemma spanOrdered_processIncident:
  assumes "\<forall>g\<in>set gs. spanOrdered g"
  shows "\<forall>g\<in>set (processIncident maxAge period now gs inc). spanOrdered g"
proof -
  have "\<forall>g\<in>set (updateFirst (groupMatches period inc) (addToGroup inc) gs). spanOrdered g"
    using assms set_updateFirst [of "groupMatches period inc" "addToGroup inc" gs]
    by (auto simp: spanOrdered_addToGroup)
  then show ?thesis
    using assms by (auto simp: processIncident_def spanOrdered_newGroup split: option.splits)
qed

lemma spanOrdered_groupLoop:
  "\<forall>g\<in>set gs. spanOrdered g \<Longrightarrow> \<forall>g\<in>set (groupLoop maxAge period now gs incs). spanOrdered g"
proof (induction incs arbitrary: gs)
  case Nil
  then show ?case by simp
next
  case (Cons inc incs)
  show ?case
    using Cons.IH [OF spanOrdered_processIncident [OF Cons.prems]] by simp
qed

lemma old_incident_skipped:
  assumes "now - startsAt inc > maxAge * 1000"
  shows "processIncident maxAge period now gs inc = gs"
proof -
  have "\<not> isWithinTolerance (startsAt inc) now maxAge"
    using assms by (simp add: isWithinTolerance_def)
  then show ?thesis by (simp add: processIncident_def)
qed

lemma groupLoop_append:
  "groupLoop maxAge period now gs (xs @ ys) =
   groupLoop maxAge period now (groupLoop maxAge period now gs xs) ys"
  by (induction xs arbitrary: gs) auto

text \<open>
  C4. With a tolerance of 100 seconds and a horizon of 100000 seconds, and every event
  within the horizon of now, the events A at 0 s, B at 50 s and C at 500 s of one key
  (region \<open>r\<close>, link \<open>l\<close>) give exactly two groups: hosts A and B spanning 0 s to 50 s,
  and host C spanning 500 s to 500 s. In general an event within the horizon is decided by
  the first group, in the order of creation, that has its key and has the start or the
  end of its span within the tolerance of the event: the event is added to that group
  unless its host is already there, and when no group is such a new group is appended.
\<close>

theorem groupIncidents_clusters_by_first_match:
  assumes "isWithinTolerance 0 now 100000"
    and "isWithinTolerance 50000 now 100000"
    and "isWithinTolerance 500000 now 100000"
    and "isWithinTolerance (startsAt inc) now' maxAge"
    and "\<forall>h\<in>set pre. \<not> groupMatches period inc h"
    and "groupMatches period inc g"
    and "\<forall>h\<in>set gs. \<not> groupMatches period inc h"
  shows "groupIncidents 100000 100 now
           [\<lparr>startsAt = 0, host = ''A'', incident.link = l, incident.region = r\<rparr>,
            \<lparr>startsAt = 50000, host = ''B'', incident.link = l, incident.region = r\<rparr>,
            \<lparr>startsAt = 500000, host = ''C'', incident.link = l, incident.region = r\<rparr>]
         = [\<lparr>region = r, link = l, hosts = [''A'', ''B''], count = 2,
              startsAtMin = 0, startsAtMax = 50000\<rparr>,
            \<lparr>region = r, link = l, hosts = [''C''], count = 1,
              startsAtMin = 500000, startsAtMax = 500000\<rparr>]
       \<and> processIncident maxAge period now' (pre @ g # post) inc
         = (if host inc \<in> set (hosts g) then pre @ g # post
            else pre @ addToGroup inc g # post)
       \<and> processIncident maxAge period now' gs inc = gs @ [newGroup inc]"
proof -
  have example: "groupIncidents 100000 100 now
           [\<lparr>startsAt = 0, host = ''A'', incident.link = l, incident.region = r\<rparr>,
            \<lparr>startsAt = 50000, host = ''B'', incident.link = l, incident.region = r\<rparr>,
            \<lparr>startsAt = 500000, host = ''C'', incident.link = l, incident.region = r\<rparr>]
         = [\<lparr>region = r, link = l, hosts = [''A'', ''B''], count = 2,
              startsAtMin = 0, startsAtMax = 50000\<rparr>,
            \<lparr>region = r, link = l, hosts = [''C''], count = 1,
              startsAtMin = 500000, startsAtMax = 500000\<rparr>]"
    using assms(1-3)
    by (simp add: groupIncidents_def processIncident_def groupMatches_def newGroup_def
          addToGroup_def)
       (simp add: isWithinTolerance_def)
  have matched: "processIncident maxAge period now' (pre @ g # post) inc
         = (if host inc \<in> set (hosts g) then pre @ g # post
            else pre @ addToGroup inc g # post)"
    using assms(4) find_split [OF assms(5,6)] updateFirst_split [OF assms(5,6)]
    by (simp add: processIncident_def)
  have unmatched: "processIncident maxAge period now' gs inc = gs @ [newGroup inc]"
    using assms(4) find_no_match [OF assms(7)] by (simp add: processIncident_def)
  from example matched unmatched show ?thesis by blast
qed

theorem groupIncidents_clusters_by_first_match_witness:
  "groupIncidents 100000 100 500000
           [\<lparr>startsAt = 0, host = ''A'', incident.link = ''l'', incident.region = ''r''\<rparr>,
            \<lparr>startsAt = 50000, host = ''B'', incident.link = ''l'', incident.region = ''r''\<rparr>,
            \<lparr>startsAt = 500000, host = ''C'', incident.link = ''l'', incident.region = ''r''\<rparr>]
         = [\<lparr>region = ''r'', link = ''l'', hosts = [''A'', ''B''], count = 2,
              startsAtMin = 0, startsAtMax = 50000\<rparr>,
            \<lparr>region = ''r'', link = ''l'', hosts = [''C''], count = 1,
              startsAtMin = 500000, startsAtMax = 500000\<rparr>]
   \<and> processIncident 100000 100 500000
        [\<lparr>region = ''q'', link = ''l'', hosts = [''Z''], count = 1,
           startsAtMin = 0, startsAtMax = 0\<rparr>,
         \<lparr>region = ''r'', link = ''l'', hosts = [''A''], count = 1,
           startsAtMin = 0, startsAtMax = 0\<rparr>]
        \<lparr>startsAt = 50000, host = ''B'', incident.link = ''l'', incident.region = ''r''\<rparr>
      = [\<lparr>region = ''q'', link = ''l'', hosts = [''Z''], count = 1,
           startsAtMin = 0, startsAtMax = 0\<rparr>,
         \<lparr>region = ''r'', link = ''l'', hosts = [''A'', ''B''], count = 2,
           startsAtMin = 0, startsAtMax = 50000\<rparr>]
   \<and> processIncident 100000 100 500000
        [\<lparr>region = ''q'', link = ''l'', hosts = [''Z''], count = 1,
           startsAtMin = 0, startsAtMax = 0\<rparr>]
        \<lparr>startsAt = 50000, host = ''B'', incident.link = ''l'', incident.region = ''r''\<rparr>
      = [\<lparr>region = ''q'', link = ''l'', hosts = [''Z''], count = 1,
           startsAtMin = 0, startsAtMax = 0\<rparr>,
         \<lparr>region = ''r'', link = ''l'', hosts = [''B''], count = 1,
           startsAtMin = 50000, startsAtMax = 50000\<rparr>]"
proof -
  let ?inc = "\<lparr>startsAt = 50000, host = ''B'', incident.link = ''l'', incident.region = ''r''\<rparr>"
  let ?z = "\<lparr>region = ''q'', link = ''l'', hosts = [''Z''], count = 1,
           startsAtMin = 0, startsAtMax = 0\<rparr>"
  let ?g = "\<lparr>region = ''r'', link = ''l'', hosts = [''A''], count = 1,
           startsAtMin = 0, startsAtMax = 0\<rparr>"
  have h1: "isWithinTolerance 0 500000 100000" by (simp add: isWithinTolerance_def)
  have h2: "isWithinTolerance 50000 500000 100000" by (simp add: isWithinTolerance_def)
  have h3: "isWithinTolerance 500000 500000 100000" by (simp add: isWithinTolerance_def)
  have h4: "isWithinTolerance (startsAt ?inc) 500000 100000" by (simp add: isWithinTolerance_def)
  have h5: "\<forall>h\<in>set [?z]. \<not> groupMatches 100 ?inc h" by (simp add: groupMatches_def)
  have h6: "groupMatches 100 ?inc ?g" by (simp add: groupMatches_def isWithinTolerance_def)
  show ?thesis
    using groupIncidents_clusters_by_first_match [OF h1 h2 h3 h4 h5 h6 h5, of "''l''" "''r''" "[]"]
    by (simp add: addToGroup_def newGroup_def)
qed

text \<open>
  C5. When the group found for an event (the first that matches it) already has the
  event's host among its hosts, the round of the loop returns the groups as they were: no
  group's hosts, count or span changes and no group is added.
\<close>

theorem processIncident_duplicate_host_unchanged:
  assumes "find (groupMatches period inc) incidentGroups = Some g"
    and "host inc \<in> set (hosts g)"
  shows "processIncident maxAge period now incidentGroups inc = incidentGroups"
  using assms by (simp add: processIncident_def)

theorem processIncident_duplicate_host_unchanged_witness:
  "processIncident 100000 100 500000
     [\<lparr>region = ''r'', link = ''l'', hosts = [''A'', ''B''], count = 2,
        startsAtMin = 0, startsAtMax = 50000\<rparr>]
     \<lparr>startsAt = 60000, host = ''A'', incident.link = ''l'', incident.region = ''r''\<rparr>
   = [\<lparr>region = ''r'', link = ''l'', hosts = [''A'', ''B''], count = 2,
        startsAtMin = 0, startsAtMax = 50000\<rparr>]"
proof -
  let ?g = "\<lparr>region = ''r'', link = ''l'', hosts = [''A'', ''B''], count = 2,
        startsAtMin = 0, startsAtMax = 50000\<rparr>"
  let ?inc = "\<lparr>startsAt = 60000, host = ''A'', incident.link = ''l'', incident.region = ''r''\<rparr>"
  have h1: "find (groupMatches 100 ?inc) [?g] = Some ?g"
    by (simp add: groupMatches_def isWithinTolerance_def)
  have h2: "host ?inc \<in> set (hosts ?g)" by simp
  show ?thesis
    using processIncident_duplicate_host_unchanged [OF h1 h2] by simp
qed

text \<open>
  C6. An event whose age, now minus its instant, exceeds the horizon (in seconds, the
  instants being in milliseconds) is skipped: the round of the loop returns the groups
  as they were, and the result of the whole grouping is the one of the input without
  that event.
\<close>

theorem groupIncidents_discards_old_incident:
  assumes "now - startsAt inc > maxAge * 1000"
  shows "processIncident maxAge period now incidentGroups inc = incidentGroups
       \<and> groupIncidents maxAge period now (before @ inc # after)
         = groupIncidents maxAge period now (before @ after)"
  using old_incident_skipped [OF assms]
  by (simp add: groupIncidents_def groupLoop_append)

theorem groupIncidents_discards_old_incident_witness:
  "processIncident 100 100 500000
     [\<lparr>region = ''r'', link = ''l'', hosts = [''A''], count = 1,
        startsAtMin = 450000, startsAtMax = 450000\<rparr>]
     \<lparr>startsAt = 399999, host = ''B'', incident.link = ''l'', incident.region = ''r''\<rparr>
   = [\<lparr>region = ''r'', link = ''l'', hosts = [''A''], count = 1,
        startsAtMin = 450000, startsAtMax = 450000\<rparr>]
   \<and> groupIncidents 100 100 500000
       [\<lparr>startsAt = 399999, host = ''B'', incident.link = ''l'', incident.region = ''r''\<rparr>,
        \<lparr>startsAt = 450000, host = ''A'', incident.link = ''l'', incident.region = ''r''\<rparr>]
   = groupIncidents 100 100 500000
       [\<lparr>startsAt = 450000, host = ''A'', incident.link = ''l'', incident.region = ''r''\<rparr>]"
proof -
  let ?inc = "\<lparr>startsAt = 399999, host = ''B'', incident.link = ''l'', incident.region = ''r''\<rparr>"
  have h: "500000 - startsAt ?inc > 100 * 1000" by simp
  show ?thesis
    using groupIncidents_discards_old_incident [OF h, of 100 _ "[]"]
    by simp
qed

text \<open>
  C9. The start of a group's span is never after its end: a new group has both equal to
  the event's instant, adding an event to a group keeps the order, every round of the
  loop keeps it for all groups, and so it holds of every group the grouping returns.
\<close>

theorem groupIncidents_span_ordered:
  "startsAtMin (newGroup inc) = startsAt inc
   \<and> startsAtMax (newGroup inc) = startsAt inc
   \<and> (spanOrdered g \<longrightarrow> spanOrdered (addToGroup inc g))
   \<and> ((\<forall>g\<in>set incidentGroups. spanOrdered g) \<longrightarrow>
        (\<forall>g\<in>set (processIncident maxAge period now incidentGroups inc). spanOrdered g))
   \<and> (\<forall>g\<in>set (groupIncidents maxAge period now incidents). spanOrdered g)"
proof (intro conjI impI)
  show "startsAtMin (newGroup inc) = startsAt inc" by (simp add: newGroup_def)
  show "startsAtMax (newGroup inc) = startsAt inc" by (simp add: newGroup_def)
  show "spanOrdered (addToGroup inc g)" if "spanOrdered g"
    using that by (rule spanOrdered_addToGroup)
  show "\<forall>g\<in>set (processIncident maxAge period now incidentGroups inc). spanOrdered g"
    if "\<forall>g\<in>set incidentGroups. spanOrdered g"
    using that by (rule spanOrdered_processIncident)
  have "\<forall>g\<in>set (groupLoop maxAge period now [] incidents). spanOrdered g"
    by (rule spanOrdered_groupLoop) simp
  then show "\<forall>g\<in>set (groupIncidents maxAge period now incidents). spanOrdered g"
    by (simp only: groupIncidents_def)
qed

theorem groupIncidents_span_ordered_witness:
  "spanOrdered (addToGroup
      \<lparr>startsAt = 50000, host = ''B'', incident.link = ''l'', incident.region = ''r''\<rparr>
      \<lparr>region = ''r'', link = ''l'', hosts = [''A''], count = 1,
         startsAtMin = 0, startsAtMax = 0\<rparr>)
   \<and> spanOrdered (hd (processIncident 100000 100 500000
        [\<lparr>region = ''r'', link = ''l'', hosts = [''A''], count = 1,
           startsAtMin = 0, startsAtMax = 0\<rparr>]
        \<lparr>startsAt = 50000, host = ''B'', incident.link = ''l'', incident.region = ''r''\<rparr>))
   \<and> spanOrdered (hd (groupIncidents 100000 100 500000
        [\<lparr>startsAt = 0, host = ''A'', incident.link = ''l'', incident.region = ''r''\<rparr>,
         \<lparr>startsAt = 50000, host = ''B'', incident.link = ''l'', incident.region = ''r''\<rparr>]))"
proof -
  let ?inc = "\<lparr>startsAt = 50000, host = ''B'', incident.link = ''l'', incident.region = ''r''\<rparr>"
  let ?a = "\<lparr>startsAt = 0, host = ''A'', incident.link = ''l'', incident.region = ''r''\<rparr>"
  let ?g = "\<lparr>region = ''r'', link = ''l'', hosts = [''A''], count = 1,
         startsAtMin = 0, startsAtMax = 0\<rparr>"
  note inst = groupIncidents_span_ordered [of ?inc ?g "[?g]" 100000 100 500000 "[?a, ?inc]"]
  have h: "spanOrdered ?g" by (simp add: spanOrdered_def)
  have hs: "\<forall>g\<in>set [?g]. spanOrdered g" using h by simp
  have e1: "processIncident 100000 100 500000 [?g] ?inc = [addToGroup ?inc ?g]"
    by (simp add: processIncident_def groupMatches_def isWithinTolerance_def)
  have e2: "groupIncidents 100000 100 500000 [?a, ?inc] = [addToGroup ?inc ?g]"
    by (simp add: groupIncidents_def processIncident_def groupMatches_def isWithinTolerance_def
          newGroup_def)
  from inst h have c1: "spanOrdered (addToGroup ?inc ?g)" by blast
  from inst hs have "\<forall>g\<in>set (processIncident 100000 100 500000 [?g] ?inc). spanOrdered g"
    by blast
  then have c2: "spanOrdered (hd (processIncident 100000 100 500000 [?g] ?inc))"
    by (simp only: e1 list.set ball_simps list.sel)
  from inst have "\<forall>g\<in>set (groupIncidents 100000 100 500000 [?a, ?inc]). spanOrdered g"
    by blast
  then have c3: "spanOrdered (hd (groupIncidents 100000 100 500000 [?a, ?inc]))"
    by (simp only: e2 list.set ball_simps list.sel)
  from c1 c2 c3 show ?thesis by blast
qed


section \<open>Properties of the metric parser\<close>

lemma parseLines_append:
  "parseLines result before = Inr result' \<Longrightarrow>
   parseLines result (before @ rest) = parseLines result' rest"
  by (induction before arbitrary: result) (auto split: sum.splits)

lemma countTags_no_tags_label:
  "map_of (labels m) ''tags'' = None \<Longrightarrow> countTags tags m queueCount = queueCount"
  by (induction tags) auto

text \<open>
  C1. The claim fails on the code: at the end of the input the state \<open>IN_QUOTE\<close> is
  exempted from the error, so the fragment \<^verbatim>\<open>a="unterminated\<close> is accepted and gives
  the empty set of labels.
\<close>

theorem parseAttributes_unterminated_quote_accepted:
  \<open>parseAttributes ''a="unterminated'' = Inr []\<close>
  by code_simp

text \<open>
  C1, amended. Whenever the loop reaches the end of the fragment in the state
  \<open>IN_QUOTE\<close>, the parser raises no error: it returns the labels committed before the
  quote was opened, and the pending name and the value read so far are dropped.
\<close>

theorem parseAttributes_in_quote_at_end:
  assumes "scan initialParser input = Inr p"
    and "state p = IN_QUOTE"
  shows "parseAttributes input = Inr (attrs p)"
  using assms by (simp add: parseAttributes_def finish_def)

theorem parseAttributes_in_quote_at_end_witness:
  \<open>parseAttributes ''k=v,a="unterminated'' = Inr [(''k'', ''v'')]\<close>
proof -
  let ?p = "\<lparr>attrs = [(''k'', ''v'')], state = IN_QUOTE, quote = CHR 0x22,
             attrBuf = ''a'', valBuf = ''unterminated''\<rparr>"
  have h1: \<open>scan initialParser ''k=v,a="unterminated'' = Inr ?p\<close> by code_simp
  have h2: "state ?p = IN_QUOTE" by simp
  show ?thesis
    using parseAttributes_in_quote_at_end [OF h1 h2] by simp
qed

text \<open>
  C2. On the line \<^verbatim>\<open>foo 3.5\<close>, which has no brace, both \<^verbatim>\<open>indexOf\<close> give -1: the
  name is the empty string and the value is read from the whole line, which starts with
  no number. The sample is stored under the empty name with the value \<open>NaN\<close>, where the
  claim has the name \<^verbatim>\<open>foo\<close> and the value 3.5.
\<close>

theorem parseMetricLines_line_without_braces:
  "parseMetricLines ''foo 3.5'' = Inr [([], [\<lparr>labels = [], value = NaN\<rparr>])]"
  by code_simp

text \<open>
  C3. The claim fails on the code: the value of a line is whatever \<^verbatim>\<open>parseFloat\<close>
  returns and is never tested, so a line whose value text is no number is accepted with
  the value \<open>NaN\<close>.
\<close>

theorem parseMetricLines_non_numeric_value_accepted:
  \<open>parseMetricLines ''foo{a="1"} abc''
   = Inr [(''foo'', [\<lparr>labels = [(''a'', ''1'')], value = NaN\<rparr>])]\<close>
  by code_simp

text \<open>
  C3, amended. A line that is no comment, whose text after the first \<^verbatim>\<open>}\<close> is no
  number and whose label fragment parses, raises no error on account of its value: it
  gives a sample with the value \<open>NaN\<close>, stored under its metric name, and the parse goes
  on with the lines that follow.
\<close>

theorem parseLines_non_numeric_value_is_NaN:
  assumes "parseLines result before = Inr result'"
    and "\<not> startsWith line (CHR ''#'')"
    and "parseFloat (trim (substringFrom line (indexOf line (CHR ''}'') + 1))) = NaN"
    and "parseAttributes
           (trim (substring line (indexOf line (CHR ''{'') + 1) (indexOf line (CHR ''}''))))
         = Inr ls"
  shows "parseLines result (before @ line # after)
       = (case pushMetric (trim (substring line 0 (indexOf line (CHR ''{''))))
                 \<lparr>labels = ls, value = NaN\<rparr> result' of
            Inl e \<Rightarrow> Inl e
          | Inr result'' \<Rightarrow> parseLines result'' after)"
  using assms by (simp add: parseLines_append parseLine_def Let_def)

theorem parseLines_non_numeric_value_is_NaN_witness:
  \<open>parseLines [] [''bar 1'', ''foo{a="1"} abc'', ''foo{} 2'']
   = Inr [([], [\<lparr>labels = [], value = NaN\<rparr>]),
          (''foo'', [\<lparr>labels = [(''a'', ''1'')], value = NaN\<rparr>,
                     \<lparr>labels = [], value = Num 2\<rparr>])]\<close>
proof -
  let ?line = \<open>''foo{a="1"} abc''\<close>
  have h1: "parseLines [] [''bar 1''] = Inr [([], [\<lparr>labels = [], value = NaN\<rparr>])]"
    by code_simp
  have h2: "\<not> startsWith ?line (CHR ''#'')" by code_simp
  have h3: "parseFloat (trim (substringFrom ?line (indexOf ?line (CHR ''}'') + 1))) = NaN"
    by code_simp
  have h4: "parseAttributes
           (trim (substring ?line (indexOf ?line (CHR ''{'') + 1) (indexOf ?line (CHR ''}''))))
         = Inr [(''a'', ''1'')]"
    by code_simp
  have e: "(case pushMetric (trim (substring ?line 0 (indexOf ?line (CHR ''{''))))
                 \<lparr>labels = [(''a'', ''1'')], value = NaN\<rparr>
                 [([], [\<lparr>labels = [], value = NaN\<rparr>])] of
            Inl e \<Rightarrow> Inl e
          | Inr result'' \<Rightarrow> parseLines result'' [''foo{} 2''])
     = Inr [([], [\<lparr>labels = [], value = NaN\<rparr>]),
          (''foo'', [\<lparr>labels = [(''a'', ''1'')], value = NaN\<rparr>,
                     \<lparr>labels = [], value = Num 2\<rparr>])]"
    by code_simp
  show ?thesis
    using parseLines_non_numeric_value_is_NaN [OF h1 h2 h3 h4, of "[''foo{} 2'']"]
    by (simp only: e append.simps)
qed

text \<open>
  C7. On the fragment \<^verbatim>\<open>__proto__=1\<close> the pair is committed and nothing is stored:
  the assignment to the name \<^verbatim>\<open>__proto__\<close> of a plain object is taken by the inherited
  setter, which ignores a string. The fragment is accepted and the labels have no entry
  for the committed name, where the claim has one.
\<close>

theorem parseAttributes_proto_name_not_stored:
  "parseAttributes ''__proto__=1'' = Inr []"
  by code_simp

subsection \<open>What the labels keep of the committed pairs\<close>

text \<open>
  Apart from the one name above, a commit writes its pair over any earlier value of the
  name, and the labels never hold a name twice.
\<close>

lemma assignLabel_last_write:
  "attrName \<noteq> ''__proto__'' \<Longrightarrow>
   map_of (assignLabel attrName attrValue ls) = (map_of ls)(attrName \<mapsto> attrValue)"
  by (simp add: assignLabel_def update_conv')

lemma assignLabel_distinct:
  "distinct (map fst ls) \<Longrightarrow> distinct (map fst (assignLabel attrName attrValue ls))"
  by (simp add: assignLabel_def distinct_update)

lemma step_distinct:
  "step p c = Inr p' \<Longrightarrow> distinct (map fst (attrs p)) \<Longrightarrow> distinct (map fst (attrs p'))"
  by (cases "state p")
     (auto simp: step_def commitAttribute_def assignLabel_distinct split: if_splits)

lemma scan_distinct:
  "scan p input = Inr p' \<Longrightarrow> distinct (map fst (attrs p)) \<Longrightarrow> distinct (map fst (attrs p'))"
proof (induction input arbitrary: p)
  case Nil
  then show ?case by simp
next
  case (Cons c input)
  then show ?case
    by (auto split: sum.splits dest: step_distinct)
qed

lemma parseAttributes_distinct_names:
  assumes "parseAttributes input = Inr ls"
  shows "distinct (map fst ls)"
proof -
  from assms obtain p where p: "scan initialParser input = Inr p" and f: "finish p = Inr ls"
    by (auto simp: parseAttributes_def split: sum.splits)
  have d: "distinct (map fst (attrs p))"
    using scan_distinct [OF p] by (simp add: initialParser_def)
  show ?thesis
    using f d by (auto simp: finish_def commitAttribute_def assignLabel_distinct split: if_splits)
qed

text \<open>
  C10. A sample whose label \<^verbatim>\<open>type\<close> is \<^verbatim>\<open>enqueued\<close> and that has no label
  \<^verbatim>\<open>tags\<close> passes the filter and changes no counter, whatever the tags are: the
  loop over the tags returns the counter as it was, and the counts of a list of samples
  are those of the list without that sample.
\<close>

theorem countTags_missing_tags_label_unchanged:
  assumes "map_of (labels m) ''type'' = Some ''enqueued''"
    and "map_of (labels m) ''tags'' = None"
  shows "isEnqueued m
       \<and> countTags tags m queueCount = queueCount
       \<and> countQueue tags (before @ m # after) = countQueue tags (before @ after)"
  using assms by (simp add: isEnqueued_def countQueue_def countTags_no_tags_label)

theorem countTags_missing_tags_label_unchanged_witness:
  "countTags [''billing'', ''sales''] \<lparr>labels = [(''type'', ''enqueued'')], value = Num 1\<rparr>
     [(''billing'', 2)] = [(''billing'', 2)]
   \<and> countQueue [''billing'', ''sales'']
       [\<lparr>labels = [(''type'', ''enqueued''), (''tags'', ''billing,sales'')], value = Num 1\<rparr>,
        \<lparr>labels = [(''type'', ''enqueued'')], value = Num 1\<rparr>]
     = [(''billing'', 1), (''sales'', 1)]"
proof -
  let ?m = "\<lparr>labels = [(''type'', ''enqueued'')], value = Num 1\<rparr>"
  let ?other = "\<lparr>labels = [(''type'', ''enqueued''), (''tags'', ''billing,sales'')], value = Num 1\<rparr>"
  have h1: "map_of (labels ?m) ''type'' = Some ''enqueued''" by simp
  have h2: "map_of (labels ?m) ''tags'' = None" by simp
  have e: "countQueue [''billing'', ''sales''] [?other] = [(''billing'', 1), (''sales'', 1)]"
    by code_simp
  note inst = countTags_missing_tags_label_unchanged [OF h1 h2,
      of "[''billing'', ''sales'']" "[(''billing'', 2)]" "[?other]" "[]"]
  from inst have c1: "countTags [''billing'', ''sales''] ?m [(''billing'', 2)] = [(''billing'', 2)]"
    by blast
  from inst have "countQueue [''billing'', ''sales''] ([?other] @ ?m # [])
        = countQueue [''billing'', ''sales''] ([?other] @ [])"
    by blast
  then have c2: "countQueue [''billing'', ''sales''] [?other, ?m] = [(''billing'', 1), (''sales'', 1)]"
    by (simp add: e)
  from c1 c2 show ?thesis by blast
qed


section \<open>The round trip of the rendered counter\<close>

declare natToString.simps [simp del]

subsection \<open>Round trip: strings\<close>

lemma indexOf_first:
  "c \<notin> set xs \<Longrightarrow> indexOf (xs @ c # ys) c = int (length xs)"
  by (induction xs) (auto simp: Let_def)

lemma substring_between:
  assumes "i = int (length a)" and "j = int (length a + length b)"
  shows "substring (a @ b @ c) i j = b"
proof -
  have 1: "min (max i 0) (int (length (a @ b @ c))) = int (length a)"
    using assms by simp
  have 2: "min (max j 0) (int (length (a @ b @ c))) = int (length a + length b)"
    using assms by simp
  have 3: "min (int (length a)) (int (length a + length b)) = int (length a)"
    by simp
  have 4: "max (int (length a)) (int (length a + length b)) = int (length a + length b)"
    by simp
  have 5: "nat (int (length a + length b) - int (length a)) = length b"
    by simp
  show ?thesis
    unfolding substring_def Let_def 1 2 3 4 5 by simp
qed

lemma substring_prefix: "substring (a @ c) 0 (int (length a)) = a"
  using substring_between [of 0 "[]" "int (length a)" a c] by simp

lemma substringFrom_suffix: "i = int (length a) \<Longrightarrow> substringFrom (a @ b) i = b"
  using substring_between [of i a "int (length (a @ b))" b "[]"]
  by (simp add: substringFrom_def)

lemma trimEnd_id:
  assumes "s \<noteq> []" and "\<not> isWhiteSpace (last s)"
  shows "trimEnd s = s"
proof -
  obtain xs x where s: "s = xs @ [x]"
    using assms(1) by (cases s rule: rev_cases) auto
  have "\<not> isWhiteSpace x" using assms(2) by (simp add: s)
  then show ?thesis by (simp add: trimEnd_def s)
qed

lemma trim_id:
  assumes "s \<noteq> []" and "\<not> isWhiteSpace (hd s)" and "\<not> isWhiteSpace (last s)"
  shows "trim s = s"
proof -
  have "trimStart s = s"
    using assms(1,2) by (cases s) (auto simp: trimStart_def)
  then show ?thesis by (simp add: trim_def trimEnd_id [OF assms(1,3)])
qed

lemma trim_space_prefix:
  assumes "s \<noteq> []" and "\<not> isWhiteSpace (hd s)" and "\<not> isWhiteSpace (last s)"
  shows "trim (CHR '' '' # s) = s"
proof -
  have "trimStart (CHR '' '' # s) = s"
    using assms(1,2) by (cases s) (auto simp: trimStart_def isWhiteSpace_def)
  then show ?thesis by (simp add: trim_def trimEnd_id [OF assms(1,3)])
qed

lemma splitFrom_no_newline:
  "CHR 0x0A \<notin> set l \<Longrightarrow> splitFrom cur l = [cur @ l]"
  by (induction l arbitrary: cur) auto

lemma splitFrom_line:
  "CHR 0x0A \<notin> set l \<Longrightarrow> splitFrom cur (l @ CHR 0x0A # rest) = (cur @ l) # splitFrom [] rest"
  by (induction l arbitrary: cur) auto

lemma splitLines_joinLines:
  "ls \<noteq> [] \<Longrightarrow> \<forall>l\<in>set ls. CHR 0x0A \<notin> set l \<Longrightarrow> splitLines (joinLines ls) = ls"
proof (induction ls rule: joinLines.induct)
  case 1
  then show ?case by simp
next
  case (2 l)
  then show ?case by (simp add: splitLines_def splitFrom_no_newline)
next
  case (3 l v va)
  then show ?case by (simp add: splitLines_def splitFrom_line)
qed

lemma hd_joinLines: "ls \<noteq> [] \<Longrightarrow> hd ls \<noteq> [] \<Longrightarrow> hd (joinLines ls) = hd (hd ls)"
  by (induction ls rule: joinLines.induct) auto

lemma joinLines_nonempty: "ls \<noteq> [] \<Longrightarrow> last ls \<noteq> [] \<Longrightarrow> joinLines ls \<noteq> []"
  by (induction ls rule: joinLines.induct) auto

lemma last_joinLines: "ls \<noteq> [] \<Longrightarrow> last ls \<noteq> [] \<Longrightarrow> last (joinLines ls) = last (last ls)"
proof (induction ls rule: joinLines.induct)
  case (3 l v va)
  then have "joinLines (v # va) \<noteq> []" by (intro joinLines_nonempty) auto
  with 3 show ?case by simp
qed auto

subsection \<open>Round trip: numbers\<close>

lemma digitChar_digit: "d < 10 \<Longrightarrow> isDigit (digitChar d) \<and> digitValue (digitChar d) = d"
proof -
  assume "d < 10"
  then have "d \<in> set [0, 1, 2, 3, 4, 5, 6, 7, 8, 9]" by (simp; arith)
  moreover have "\<forall>d\<in>set [0, 1, 2, 3, 4, 5, 6, 7, 8, 9]. isDigit (digitChar d) \<and> digitValue (digitChar d) = d"
    by code_simp
  ultimately show ?thesis by blast
qed

lemma digitsValue_snoc: "digitsValue (ds @ [c]) = 10 * digitsValue ds + digitValue c"
  by (simp add: digitsValue_def)

lemma natToString_digits:
  "natToString n \<noteq> [] \<and> (\<forall>c\<in>set (natToString n). isDigit c) \<and> digitsValue (natToString n) = n"
proof (induction n rule: natToString.induct)
  case (1 n)
  show ?case
  proof (cases "n < 10")
    case True
    then show ?thesis
      using digitChar_digit [of n]
      by (subst (1 2 3) natToString.simps) (simp add: digitsValue_def)
  next
    case False
    then show ?thesis
      using 1 digitChar_digit [of "n mod 10"]
      by (subst (1 2 3) natToString.simps) (simp add: digitsValue_snoc)
  qed
qed

lemma isDigit_not_special:
  "isDigit c \<Longrightarrow> \<not> isWhiteSpace c \<and> c \<noteq> CHR ''-'' \<and> c \<noteq> CHR ''+'' \<and> c \<noteq> CHR ''I'' \<and> c \<noteq> CHR 0x0A"
  by (auto simp: isDigit_def isWhiteSpace_def)

lemma parseFloat_digits:
  assumes "ds \<noteq> []" and "\<forall>c\<in>set ds. isDigit c"
  shows "parseFloat ds = Num (of_nat (digitsValue ds))"
proof -
  obtain d rest where ds: "ds = d # rest" using assms(1) by (cases ds) auto
  have d: "isDigit d" using assms(2) ds by simp
  note sp = isDigit_not_special [OF d]
  have t: "trimStart ds = ds" using sp by (simp add: trimStart_def ds)
  have s: "\<not> startsWith ds (CHR ''-'')" "\<not> startsWith ds (CHR ''+'')"
    using sp by (simp_all add: startsWith_def ds)
  have i: "take 8 ds \<noteq> ''Infinity''" using sp by (auto simp: ds)
  have tw: "takeWhile isDigit ds = ds" "dropWhile isDigit ds = []"
    using assms(2) by simp_all
  have u: "unsignedLiteral ds = Some (of_nat (digitsValue ds))"
    using assms(1) by (simp add: unsignedLiteral_def tw exponentPart_def pow10_def)
  show ?thesis
    using i by (simp add: parseFloat_def t s u)
qed

lemma parseFloat_natToString: "parseFloat (natToString n) = Num (of_nat n)"
  using natToString_digits [of n] parseFloat_digits [of "natToString n"] by simp

subsection \<open>Round trip: one rendered line\<close>

lemma scan_append:
  "scan p (xs @ ys) = (case scan p xs of Inl e \<Rightarrow> Inl e | Inr p' \<Rightarrow> scan p' ys)"
  by (induction xs arbitrary: p) (auto split: sum.splits)

lemma scan_in_quote:
  "state p = IN_QUOTE \<Longrightarrow> quote p \<notin> set v \<Longrightarrow> scan p v = Inr (p\<lparr>valBuf := valBuf p @ v\<rparr>)"
proof (induction v arbitrary: p)
  case Nil
  then show ?case by simp
next
  case (Cons c v)
  have "step p c = Inr (p\<lparr>valBuf := valBuf p @ [c]\<rparr>)"
    using Cons.prems by (auto simp: step_def)
  moreover have "scan (p\<lparr>valBuf := valBuf p @ [c]\<rparr>) v
      = Inr (p\<lparr>valBuf := valBuf p @ [c]\<rparr>\<lparr>valBuf := valBuf (p\<lparr>valBuf := valBuf p @ [c]\<rparr>) @ v\<rparr>)"
    using Cons.prems by (intro Cons.IH) auto
  ultimately show ?case by simp
qed

lemma parseAttributes_quoted_tag:
  assumes "CHR 0x22 \<notin> set t"
  shows "parseAttributes (''tag='' @ [CHR 0x22] @ t @ [CHR 0x22]) = Inr [(''tag'', t)]"
proof -
  let ?p = "\<lparr>attrs = [], state = IN_QUOTE, quote = CHR 0x22, attrBuf = ''tag'', valBuf = []\<rparr>"
  have 1: "scan initialParser (''tag='' @ [CHR 0x22]) = Inr ?p"
    by code_simp
  have 2: "scan ?p t = Inr (?p\<lparr>valBuf := valBuf ?p @ t\<rparr>)"
    using assms by (intro scan_in_quote) auto
  have 3: "scan (?p\<lparr>valBuf := valBuf ?p @ t\<rparr>) [CHR 0x22]
      = Inr \<lparr>attrs = [(''tag'', t)], state = INITIAL, quote = CHR 0x22, attrBuf = [], valBuf = []\<rparr>"
    by (simp add: step_def commitAttribute_def assignLabel_def)
  have "scan initialParser ((''tag='' @ [CHR 0x22]) @ t @ [CHR 0x22])
      = Inr \<lparr>attrs = [(''tag'', t)], state = INITIAL, quote = CHR 0x22, attrBuf = [], valBuf = []\<rparr>"
    by (simp only: scan_append [of _ "''tag='' @ [CHR 0x22]"] scan_append [of _ t] 1 2 3 sum.case)
  then show ?thesis
    by (simp add: parseAttributes_def finish_def)
qed

lemma pushMetric_first:
  "metricName \<notin> set objectPrototypeMembers \<Longrightarrow>
   pushMetric metricName m [] = Inr [(metricName, [m])]"
  by (simp add: pushMetric_def)

lemma pushMetric_next:
  "pushMetric metricName m [(metricName, ms)] = Inr [(metricName, ms @ [m])]"
  by (simp add: pushMetric_def)

lemma parseLine_renderLine:
  assumes name: "metricName \<noteq> []" "\<not> startsWith metricName (CHR ''#'')"
      "\<forall>c\<in>set metricName. \<not> isWhiteSpace c \<and> c \<noteq> CHR ''{'' \<and> c \<noteq> CHR ''}''"
    and tag: "\<forall>c\<in>set t. c \<noteq> CHR 0x22 \<and> c \<noteq> CHR ''}''"
  shows "parseLine result (renderLine metricName (t, n))
       = pushMetric metricName \<lparr>labels = [(''tag'', t)], value = Num (of_nat n)\<rparr> result"
proof -
  let ?L = "''tag='' @ [CHR 0x22] @ t @ [CHR 0x22]"
  let ?D = "natToString n"
  let ?line = "renderLine metricName (t, n)"
  note D = natToString_digits [of n]
  have line1: "?line = metricName @ CHR ''{'' # (?L @ CHR ''}'' # CHR '' '' # ?D)"
    by (simp add: renderLine_def)
  have line2: "?line = (metricName @ [CHR ''{'']) @ ?L @ (CHR ''}'' # CHR '' '' # ?D)"
    by (simp add: renderLine_def)
  have line3: "?line = (metricName @ CHR ''{'' # ?L) @ CHR ''}'' # (CHR '' '' # ?D)"
    by (simp add: renderLine_def)
  have line4: "?line = (metricName @ CHR ''{'' # ?L @ [CHR ''}'']) @ (CHR '' '' # ?D)"
    by (simp add: renderLine_def)
  have c: "\<not> startsWith ?line (CHR ''#'')"
    using name(1,2) by (cases metricName) (auto simp: startsWith_def renderLine_def)
  have i1: "indexOf ?line (CHR ''{'') = int (length metricName)"
    unfolding line1 using name(3) by (intro indexOf_first) auto
  have i2: "indexOf ?line (CHR ''}'') = int (length (metricName @ CHR ''{'' # ?L))"
    unfolding line3 using name(3) tag by (intro indexOf_first) auto
  have s1: "substring ?line 0 (indexOf ?line (CHR ''{'')) = metricName"
    unfolding i1 unfolding line1 by (rule substring_prefix)
  have s2: "substring ?line (indexOf ?line (CHR ''{'') + 1) (indexOf ?line (CHR ''}'')) = ?L"
    unfolding i1 i2 unfolding line2 by (rule substring_between) simp_all
  have s3: "substringFrom ?line (indexOf ?line (CHR ''}'') + 1) = CHR '' '' # ?D"
    unfolding i2 unfolding line4 by (rule substringFrom_suffix) simp
  have t1: "trim metricName = metricName"
    using name(1,3) by (intro trim_id) auto
  have t2: "trim ?L = ?L"
    by (intro trim_id) (auto simp: isWhiteSpace_def)
  have t3: "trim (CHR '' '' # ?D) = ?D"
    using D isDigit_not_special by (intro trim_space_prefix) (auto simp: hd_in_set)
  have a: "parseAttributes ?L = Inr [(''tag'', t)]"
    using tag by (intro parseAttributes_quoted_tag) auto
  show ?thesis
    unfolding parseLine_def Let_def s1 s2 s3 t1 t2 t3 a parseFloat_natToString
    using c by simp
qed

subsection \<open>Round trip: the whole text\<close>

lemma parseLines_rendered_next:
  assumes "metricName \<noteq> []" "\<not> startsWith metricName (CHR ''#'')"
      "\<forall>c\<in>set metricName. \<not> isWhiteSpace c \<and> c \<noteq> CHR ''{'' \<and> c \<noteq> CHR ''}''"
    and "\<forall>e\<in>set es. \<forall>c\<in>set (fst e). c \<noteq> CHR 0x22 \<and> c \<noteq> CHR ''}''"
  shows "parseLines [(metricName, ms)] (map (renderLine metricName) es)
       = Inr [(metricName,
               ms @ map (\<lambda>e. \<lparr>labels = [(''tag'', fst e)], value = Num (of_nat (snd e))\<rparr>) es)]"
  using assms(4)
proof (induction es arbitrary: ms)
  case Nil
  then show ?case by simp
next
  case (Cons e es)
  obtain t n where e: "e = (t, n)" by (cases e)
  have "parseLine [(metricName, ms)] (renderLine metricName (t, n))
      = Inr [(metricName, ms @ [\<lparr>labels = [(''tag'', t)], value = Num (of_nat n)\<rparr>])]"
    using Cons.prems assms(1-3)
    by (simp add: parseLine_renderLine pushMetric_next e)
  then show ?case
    using Cons.IH [of "ms @ [\<lparr>labels = [(''tag'', t)], value = Num (of_nat n)\<rparr>]"] Cons.prems
    by (simp add: e)
qed

lemma parseLines_rendered:
  assumes "metricName \<noteq> []" "\<not> startsWith metricName (CHR ''#'')"
      "\<forall>c\<in>set metricName. \<not> isWhiteSpace c \<and> c \<noteq> CHR ''{'' \<and> c \<noteq> CHR ''}''"
      "metricName \<notin> set objectPrototypeMembers"
    and "\<forall>e\<in>set es. \<forall>c\<in>set (fst e). c \<noteq> CHR 0x22 \<and> c \<noteq> CHR ''}''"
    and "es \<noteq> []"
  shows "parseLines [] (map (renderLine metricName) es)
       = Inr [(metricName,
               map (\<lambda>e. \<lparr>labels = [(''tag'', fst e)], value = Num (of_nat (snd e))\<rparr>) es)]"
proof -
  obtain t n es' where es: "es = (t, n) # es'"
    using assms(6) by (cases es) auto
  have "parseLine [] (renderLine metricName (t, n))
      = Inr [(metricName, [\<lparr>labels = [(''tag'', t)], value = Num (of_nat n)\<rparr>])]"
    using assms(1-5) by (simp add: parseLine_renderLine pushMetric_first es)
  moreover have "parseLines [(metricName, [\<lparr>labels = [(''tag'', t)], value = Num (of_nat n)\<rparr>])]
        (map (renderLine metricName) es')
      = Inr [(metricName, [\<lparr>labels = [(''tag'', t)], value = Num (of_nat n)\<rparr>]
               @ map (\<lambda>e. \<lparr>labels = [(''tag'', fst e)], value = Num (of_nat (snd e))\<rparr>) es')]"
    using assms(5) by (intro parseLines_rendered_next assms(1-3)) (simp add: es)
  ultimately show ?thesis by (simp add: es)
qed

lemma renderLine_shape:
  assumes "metricName \<noteq> []"
    and "\<forall>c\<in>set metricName. \<not> isWhiteSpace c"
    and "\<forall>c\<in>set t. \<not> isWhiteSpace c"
  shows "renderLine metricName (t, n) \<noteq> []"
    and "\<not> isWhiteSpace (hd (renderLine metricName (t, n)))"
    and "\<not> isWhiteSpace (last (renderLine metricName (t, n)))"
    and "CHR 0x0A \<notin> set (renderLine metricName (t, n))"
proof -
  note D = natToString_digits [of n]
  show "renderLine metricName (t, n) \<noteq> []"
    using assms(1) by (simp add: renderLine_def)
  show "\<not> isWhiteSpace (hd (renderLine metricName (t, n)))"
    using assms(1,2) by (cases metricName) (auto simp: renderLine_def)
  have "last (renderLine metricName (t, n)) = last (natToString n)"
    using D by (simp add: renderLine_def)
  moreover have "last (natToString n) \<in> set (natToString n)"
    using D by simp
  ultimately show "\<not> isWhiteSpace (last (renderLine metricName (t, n)))"
    using D isDigit_not_special by auto
  have "CHR 0x0A \<notin> set metricName" "CHR 0x0A \<notin> set t"
    using assms(2,3) by (auto simp: isWhiteSpace_def)
  moreover have "CHR 0x0A \<notin> set (natToString n)"
    using D isDigit_not_special by blast
  ultimately show "CHR 0x0A \<notin> set (renderLine metricName (t, n))"
    by (simp add: renderLine_def)
qed

lemma splitLines_trim_renderCounter:
  assumes "metricName \<noteq> []"
    and "\<forall>c\<in>set metricName. \<not> isWhiteSpace c"
    and "\<forall>e\<in>set es. \<forall>c\<in>set (fst e). \<not> isWhiteSpace c"
    and "es \<noteq> []"
  shows "splitLines (trim (renderCounter metricName es)) = map (renderLine metricName) es"
proof -
  let ?ls = "map (renderLine metricName) es"
  have shape: "l \<noteq> [] \<and> \<not> isWhiteSpace (hd l) \<and> \<not> isWhiteSpace (last l) \<and> CHR 0x0A \<notin> set l"
    if "l \<in> set ?ls" for l
  proof -
    from that obtain t n where "(t, n) \<in> set es" and l: "l = renderLine metricName (t, n)"
      by auto
    then have "\<forall>c\<in>set t. \<not> isWhiteSpace c" using assms(3) by auto
    then show ?thesis
      unfolding l using renderLine_shape [OF assms(1,2), of t n] by blast
  qed
  have ne: "?ls \<noteq> []" using assms(4) by simp
  then have h: "hd ?ls \<in> set ?ls" and l: "last ?ls \<in> set ?ls"
    by (rule hd_in_set, rule last_in_set)
  have 1: "joinLines ?ls \<noteq> []"
    using ne shape [OF l] by (intro joinLines_nonempty) auto
  have 2: "hd (joinLines ?ls) = hd (hd ?ls)"
    using ne shape [OF h] by (intro hd_joinLines) auto
  have 3: "last (joinLines ?ls) = last (last ?ls)"
    using ne shape [OF l] by (intro last_joinLines) auto
  have "trim (joinLines ?ls) = joinLines ?ls"
  proof (rule trim_id)
    show "joinLines ?ls \<noteq> []" by (rule 1)
    show "\<not> isWhiteSpace (hd (joinLines ?ls))"
      unfolding 2 using shape [OF h] by blast
    show "\<not> isWhiteSpace (last (joinLines ?ls))"
      unfolding 3 using shape [OF l] by blast
  qed
  moreover have "splitLines (joinLines ?ls) = ?ls"
    using ne shape by (intro splitLines_joinLines) auto
  ultimately show ?thesis by (simp add: renderCounter_def)
qed

lemma parseMetricLines_empty_text:
  "parseMetricLines [] = Inr [([], [\<lparr>labels = [], value = NaN\<rparr>])]"
  by code_simp

text \<open>
  C8. The claim fails on the code for a tag that holds a closing brace: the label
  fragment of a line ends at the first \<^verbatim>\<open>}\<close> of the line, here inside the quoted
  tag, so the line rendered for the tag \<^verbatim>\<open>a}b\<close> with the count 1 is read back as a
  sample without labels and with the value \<open>NaN\<close>.
\<close>

theorem renderCounter_round_trip_fails_on_brace:
  "parseMetricLines (renderCounter ''m'' [(''a}b'', 1)])
     = Inr [(''m'', [\<lparr>labels = [], value = NaN\<rparr>])]
   \<and> reconstructCounter ''m'' [(''m'', [\<lparr>labels = [], value = NaN\<rparr>])] = [(None, NaN)]"
  by code_simp

text \<open>
  C8, amended. For a metric name that is not empty, holds no white space and no brace,
  does not start with \<^verbatim>\<open>#\<close> and is no member of \<^verbatim>\<open>Object.prototype\<close>, and for
  every list of entries whose tags hold no double quote, comma, white space or closing
  brace and whose counts are below \<open>10 ^ 21\<close>: the rendered text parses without error,
  and the samples found under the metric name give back, in order, each tag as the label
  \<^verbatim>\<open>tag\<close> and each count as the value.
\<close>

theorem renderCounter_round_trip:
  assumes "metricName \<noteq> []"
    and "\<not> startsWith metricName (CHR ''#'')"
    and "\<forall>c\<in>set metricName. \<not> isWhiteSpace c \<and> c \<noteq> CHR ''{'' \<and> c \<noteq> CHR ''}''"
    and "metricName \<notin> set objectPrototypeMembers"
    and "\<forall>e\<in>set queueCount. \<forall>c\<in>set (fst e).
           c \<noteq> CHR 0x22 \<and> c \<noteq> CHR '','' \<and> \<not> isWhiteSpace c \<and> c \<noteq> CHR ''}''"
    and "\<forall>e\<in>set queueCount. snd e < 10 ^ 21"
  shows "\<exists>result. parseMetricLines (renderCounter metricName queueCount) = Inr result
           \<and> reconstructCounter metricName result
             = map (\<lambda>e. (Some (fst e), Num (of_nat (snd e)))) queueCount"
proof (cases "queueCount = []")
  case True
  have "parseMetricLines (renderCounter metricName queueCount)
      = Inr [([], [\<lparr>labels = [], value = NaN\<rparr>])]"
    by (simp add: True renderCounter_def parseMetricLines_empty_text)
  moreover have "reconstructCounter metricName [([], [\<lparr>labels = [], value = NaN\<rparr>])] = []"
    using assms(1) by (simp add: reconstructCounter_def)
  ultimately show ?thesis by (simp add: True)
next
  case False
  have ws: "\<forall>c\<in>set metricName. \<not> isWhiteSpace c"
    and tws: "\<forall>e\<in>set queueCount. \<forall>c\<in>set (fst e). \<not> isWhiteSpace c"
    and tq: "\<forall>e\<in>set queueCount. \<forall>c\<in>set (fst e). c \<noteq> CHR 0x22 \<and> c \<noteq> CHR ''}''"
    using assms(3,5) by blast+
  have "parseMetricLines (renderCounter metricName queueCount)
      = parseLines [] (map (renderLine metricName) queueCount)"
    by (simp add: parseMetricLines_def splitLines_trim_renderCounter [OF assms(1) ws tws False])
  also have "\<dots> = Inr [(metricName,
      map (\<lambda>e. \<lparr>labels = [(''tag'', fst e)], value = Num (of_nat (snd e))\<rparr>) queueCount)]"
    by (rule parseLines_rendered [OF assms(1-4) tq False])
  finally show ?thesis
    by (simp add: reconstructCounter_def comp_def)
qed

theorem renderCounter_round_trip_witness:
  "parseMetricLines (renderCounter ''queue'' [(''billing'', 3), (''sales'', 12)])
     = Inr [(''queue'', [\<lparr>labels = [(''tag'', ''billing'')], value = Num 3\<rparr>,
                         \<lparr>labels = [(''tag'', ''sales'')], value = Num 12\<rparr>])]
   \<and> reconstructCounter ''queue''
         [(''queue'', [\<lparr>labels = [(''tag'', ''billing'')], value = Num 3\<rparr>,
                       \<lparr>labels = [(''tag'', ''sales'')], value = Num 12\<rparr>])]
     = [(Some ''billing'', Num 3), (Some ''sales'', Num 12)]"
proof -
  let ?es = "[(''billing'', 3), (''sales'', 12)] :: Counter"
  let ?R = "[(''queue'', [\<lparr>labels = [(''tag'', ''billing'')], value = Num 3\<rparr>,
                         \<lparr>labels = [(''tag'', ''sales'')], value = Num 12\<rparr>])]"
  have h1: "''queue'' \<noteq> []" by simp
  have h2: "\<not> startsWith ''queue'' (CHR ''#'')" by (simp add: startsWith_def)
  have h3: "\<forall>c\<in>set ''queue''. \<not> isWhiteSpace c \<and> c \<noteq> CHR ''{'' \<and> c \<noteq> CHR ''}''"
    by (simp add: isWhiteSpace_def)
  have h4: "''queue'' \<notin> set objectPrototypeMembers"
    by (simp add: objectPrototypeMembers_def)
  have h5: "\<forall>e\<in>set ?es. \<forall>c\<in>set (fst e).
           c \<noteq> CHR 0x22 \<and> c \<noteq> CHR '','' \<and> \<not> isWhiteSpace c \<and> c \<noteq> CHR ''}''"
    by (simp add: isWhiteSpace_def)
  have h6: "\<forall>e\<in>set ?es. snd e < 10 ^ 21" by simp
  have p: "parseMetricLines (renderCounter ''queue'' ?es) = Inr ?R"
    by code_simp
  from renderCounter_round_trip [OF h1 h2 h3 h4 h5 h6]
  obtain result where "parseMetricLines (renderCounter ''queue'' ?es) = Inr result"
    and r: "reconstructCounter ''queue'' result
         = map (\<lambda>e. (Some (fst e), Num (of_nat (snd e)))) ?es"
    by blast
  then have "result = ?R" by (simp add: p)
  with r have "reconstructCounter ''queue'' ?R = [(Some ''billing'', Num 3), (Some ''sales'', Num 12)]"
    by simp
  with p show ?thesis by blast
qed

end
